theory Spec2Isabelle
  imports Main "HOL-Library.Word" "HOL-Library.Code_Target_Nat"
begin

unbundle bit_operations_syntax

text \<open>
  The frame and header model of \<^verbatim>\<open>socketcan_interface/interface.hpp\<close> and the text
  codec of \<^verbatim>\<open>socketcan_interface/src/string.cpp\<close>, as functions of HOL, and what holds of
  them.
\<close>

section \<open>Data model (interface.hpp)\<close>

text \<open>
  \<^verbatim>\<open>unsigned int\<close> and \<^verbatim>\<open>uint32_t\<close> are 32-bit words, \<^verbatim>\<open>uint8_t\<close>,
  \<^verbatim>\<open>unsigned char\<close> and the elements of a \<^verbatim>\<open>std::string\<close> used as a byte buffer are
  8-bit words. A \<^verbatim>\<open>std::string\<close> that holds text is a \<open>string\<close>.
\<close>

type_synonym u8 = "8 word"
type_synonym u32 = "32 word"

definition ID_MASK :: u32 where
  "ID_MASK = push_bit 29 1 - 1"

definition ERROR_MASK :: u32 where
  "ERROR_MASK = push_bit 29 1"

definition RTR_MASK :: u32 where
  "RTR_MASK = push_bit 30 1"

definition EXTENDED_MASK :: u32 where
  "EXTENDED_MASK = push_bit 31 1"

text \<open>
  \<^verbatim>\<open>struct Header\<close>: the bit-field \<^verbatim>\<open>id : 29\<close> is a 29-bit word, the three one-bit
  fields are booleans. The field \<^verbatim>\<open>id\<close> is called \<open>id'\<close> here, \<open>id\<close> being the identity
  function of HOL.
\<close>

record Header =
  id' :: "29 word"
  is_error :: bool
  is_rtr :: bool
  is_extended :: bool

text \<open>
  \<^verbatim>\<open>Header::isValid\<close>: \<^verbatim>\<open>id < (is_extended ? (1 << 29) : (1 << 11))\<close>, a comparison of
  C integers.
\<close>

definition Header_isValid :: "'a Header_scheme \<Rightarrow> bool" where
  "Header_isValid h \<longleftrightarrow> uint (id' h) < (if is_extended h then 2 ^ 29 else 2 ^ 11)"

definition fullid :: "'a Header_scheme \<Rightarrow> u32" where
  "fullid h =
     ucast (id' h)
       OR (if is_error h then ERROR_MASK else 0)
       OR (if is_rtr h then RTR_MASK else 0)
       OR (if is_extended h then EXTENDED_MASK else 0)"

definition key :: "'a Header_scheme \<Rightarrow> u32" where
  "key h = (if is_error h then ERROR_MASK else fullid h)"

text \<open>
  \<^verbatim>\<open>Header(unsigned int i, bool extended, bool rtr, bool error)\<close>: the initialiser
  \<^verbatim>\<open>id(i)\<close> stores \<^verbatim>\<open>i\<close> in the 29-bit field, which keeps its low 29 bits.
\<close>

definition Header_ctor :: "u32 \<Rightarrow> bool \<Rightarrow> bool \<Rightarrow> bool \<Rightarrow> Header" where
  "Header_ctor i extended rtr error =
     \<lparr>id' = ucast i, is_error = error, is_rtr = rtr, is_extended = extended\<rparr>"

definition MsgHeader :: "u32 \<Rightarrow> bool \<Rightarrow> Header" where
  "MsgHeader i rtr = Header_ctor i False rtr False"

definition ExtendedHeader :: "u32 \<Rightarrow> bool \<Rightarrow> Header" where
  "ExtendedHeader i rtr = Header_ctor i True rtr False"

definition ErrorHeader :: "u32 \<Rightarrow> Header" where
  "ErrorHeader i = Header_ctor i False False True"

text \<open>
  \<^verbatim>\<open>struct Frame : public Header\<close>. The constructor \<^verbatim>\<open>Frame(const Header & h, unsigned char l)\<close>
  does not initialise \<^verbatim>\<open>data\<close>: the eight bytes the array holds then are an argument
  of the model.
\<close>

record Frame = Header +
  data :: "u8 list"
  dlc :: u8

definition Frame_isValid :: "Frame \<Rightarrow> bool" where
  "Frame_isValid f \<longleftrightarrow> dlc f \<le> 8 \<and> Header_isValid f"

definition Frame_ctor :: "Header \<Rightarrow> u8 \<Rightarrow> u8 list \<Rightarrow> Frame" where
  "Frame_ctor h l uninit =
     \<lparr>id' = id' h, is_error = is_error h, is_rtr = is_rtr h, is_extended = is_extended h,
      data = uninit, dlc = l\<rparr>"

section \<open>Hexadecimal codec (string.cpp)\<close>

text \<open>
  \<^verbatim>\<open>bool hex2dec(uint8_t & d, const char & h)\<close>: \<open>None\<close> is the return value false, which
  leaves \<^verbatim>\<open>d\<close> alone. The comparisons are on character codes.
\<close>

definition hex2dec :: "char \<Rightarrow> u8 option" where
  "hex2dec h =
     (let c = (of_char h :: nat) in
      if of_char CHR ''0'' \<le> c \<and> c \<le> of_char CHR ''9'' then Some (of_nat (c - of_char CHR ''0''))
      else if of_char CHR ''a'' \<le> c \<and> c \<le> of_char CHR ''f'' then Some (of_nat (c - of_char CHR ''a'' + 10))
      else if of_char CHR ''A'' \<le> c \<and> c \<le> of_char CHR ''F'' then Some (of_nat (c - of_char CHR ''A'' + 10))
      else None)"

text \<open>\<^verbatim>\<open>std::string::resize(n)\<close>: cut to \<open>n\<close> bytes, or filled up with zero bytes.\<close>

definition resize :: "nat \<Rightarrow> u8 list \<Rightarrow> u8 list" where
  "resize n out = take n out @ replicate (n - length out) 0"

text \<open>
  The loop of \<^verbatim>\<open>hex2buffer\<close>, from index \<open>i\<close>: the result is the return value and the
  buffer \<^verbatim>\<open>out\<close> as the loop leaves it.
\<close>

function hex2buffer_loop :: "nat \<Rightarrow> string \<Rightarrow> u8 list \<Rightarrow> bool \<times> u8 list" where
  "hex2buffer_loop i inp out =
     (if i < length out then
        (case hex2dec (inp ! (2 * i)) of
           None \<Rightarrow> (False, out)
         | Some hi \<Rightarrow>
            (case hex2dec (inp ! (2 * i + 1)) of
               None \<Rightarrow> (False, out)
             | Some lo \<Rightarrow> hex2buffer_loop (i + 1) inp (out[i := push_bit 4 hi OR lo])))
      else (True, out))"
  by pat_completeness auto
termination
  by (relation "measure (\<lambda>(i, inp, out). length out - i)") auto

declare hex2buffer_loop.simps [simp del]

definition hex2buffer :: "u8 list \<Rightarrow> string \<Rightarrow> bool \<Rightarrow> bool \<times> u8 list" where
  "hex2buffer out in_raw pad =
     (if length in_raw mod 2 \<noteq> 0 \<and> \<not> pad then (False, out)
      else
        let inp = (if length in_raw mod 2 \<noteq> 0 then CHR ''0'' # in_raw else in_raw)
        in hex2buffer_loop 0 inp (resize (drop_bit 1 (length inp)) out))"

text \<open>\<^verbatim>\<open>bool dec2hex(char & h, const uint8_t & d, bool lc)\<close>: the return value and \<^verbatim>\<open>h\<close>.\<close>

definition dec2hex :: "u8 \<Rightarrow> bool \<Rightarrow> bool \<times> char" where
  "dec2hex d lc =
     (if d < 10 then (True, char_of (of_char CHR ''0'' + unat d))
      else if d < 16 \<and> lc then (True, char_of (of_char CHR ''a'' + (unat d - 10)))
      else if d < 16 \<and> \<not> lc then (True, char_of (of_char CHR ''A'' + (unat d - 10)))
      else (False, CHR ''?''))"

definition byte2hex :: "u8 \<Rightarrow> bool \<Rightarrow> bool \<Rightarrow> string" where
  "byte2hex d pad lc =
     (let hi = drop_bit 4 d;
          s = (if hi \<noteq> 0 \<or> pad then [snd (dec2hex hi lc)] else [])
      in s @ [snd (dec2hex (d AND 0xf) lc)])"

text \<open>The loop of \<^verbatim>\<open>buffer2hex\<close> over the bytes that are left, \<open>s\<close> the text so far.\<close>

fun buffer2hex_loop :: "u8 list \<Rightarrow> bool \<Rightarrow> string \<Rightarrow> string" where
  "buffer2hex_loop [] lc s = s"
| "buffer2hex_loop (d # ds) lc s =
     (let b = byte2hex d True lc in
      if b = [] then b else buffer2hex_loop ds lc (s @ b))"

definition buffer2hex :: "u8 list \<Rightarrow> bool \<Rightarrow> string" where
  "buffer2hex inp lc = buffer2hex_loop inp lc []"

section \<open>Formatted stream input and output of the C++ library\<close>

text \<open>
  \<^verbatim>\<open>tostring\<close> and \<^verbatim>\<open>tohex\<close> go through a \<^verbatim>\<open>std::stringstream\<close> in \<^verbatim>\<open>std::hex\<close> mode.
  What the library does there for an \<^verbatim>\<open>unsigned int\<close> is written out below, following
  the C++ standard (the facets \<^verbatim>\<open>num_put\<close> and \<^verbatim>\<open>num_get\<close>) as the GNU library implements it.
\<close>

definition hex_digit_char :: "nat \<Rightarrow> bool \<Rightarrow> char" where
  "hex_digit_char n lc = (if lc then ''0123456789abcdef'' ! n else ''0123456789ABCDEF'' ! n)"

text \<open>The digits of \<open>n\<close> in base 16, most significant first, \<open>0\<close> as one digit.\<close>

function hex_digits :: "nat \<Rightarrow> bool \<Rightarrow> string" where
  "hex_digits n lc =
     (if n < 16 then [hex_digit_char n lc]
      else hex_digits (n div 16) lc @ [hex_digit_char (n mod 16) lc])"
  by pat_completeness auto
termination
  by (relation "measure (\<lambda>(n, lc). n)") auto

declare hex_digits.simps [simp del]

text \<open>
  \<^verbatim>\<open>buf << v\<close> in hex mode, with no \<^verbatim>\<open>showbase\<close> and the default adjustment: the digits,
  filled on the left up to the field width.
\<close>

definition put_hex :: "u32 \<Rightarrow> bool \<Rightarrow> nat \<Rightarrow> char \<Rightarrow> string" where
  "put_hex v lc width fill =
     (let ds = hex_digits (unat v) lc in replicate (width - length ds) fill @ ds)"

definition isspace :: "char \<Rightarrow> bool" where
  "isspace c \<longleftrightarrow> (let n = (of_char c :: nat) in (9 \<le> n \<and> n \<le> 13) \<or> n = 32)"

definition xdigit :: "char \<Rightarrow> nat option" where
  "xdigit c =
     (let n = (of_char c :: nat) in
      if 48 \<le> n \<and> n \<le> 57 then Some (n - 48)
      else if 97 \<le> n \<and> n \<le> 102 then Some (n - 87)
      else if 65 \<le> n \<and> n \<le> 70 then Some (n - 55)
      else None)"

text \<open>
  The digit loop of \<^verbatim>\<open>num_get\<close>: it reads digits up to the first character that is
  none, and gives the value read and the number of digits. The value is not bounded here;
  the overflow is decided in \<open>get_hex\<close>.
\<close>

fun get_digits :: "string \<Rightarrow> nat \<Rightarrow> nat \<Rightarrow> nat \<times> nat" where
  "get_digits [] acc k = (acc, k)"
| "get_digits (c # cs) acc k =
     (case xdigit c of
        None \<Rightarrow> (acc, k)
      | Some d \<Rightarrow> get_digits cs (acc * 16 + d) (k + 1))"

text \<open>
  \<^verbatim>\<open>stream >> h\<close> in hex mode on a stream that holds \<open>s\<close>, \<open>h0\<close> the value of \<^verbatim>\<open>h\<close>
  before: white space is skipped; at the end of the stream nothing is stored; else a
  sign and the prefix \<^verbatim>\<open>0x\<close> or \<^verbatim>\<open>0X\<close> may come before the digits; no digit stores 0, a
  value beyond 32 bits stores the largest \<^verbatim>\<open>unsigned int\<close>, a minus sign negates modulo
  \<open>2 ^ 32\<close>.
\<close>

definition get_hex :: "string \<Rightarrow> u32 \<Rightarrow> u32" where
  "get_hex s h0 =
     (let s1 = dropWhile isspace s in
      if s1 = [] then h0
      else
        let negative = (hd s1 = CHR ''-'');
            s2 = (if hd s1 = CHR ''-'' \<or> hd s1 = CHR ''+'' then tl s1 else s1);
            s3 = (case s2 of
                    c0 # cx # r \<Rightarrow>
                      if c0 = CHR ''0'' \<and> (cx = CHR ''x'' \<or> cx = CHR ''X'') then r else s2
                  | _ \<Rightarrow> s2);
            (v, k) = get_digits s3 0 0
        in if k = 0 then 0
           else if v > 0xFFFFFFFF then 0xFFFFFFFF
           else if negative then - of_nat v
           else of_nat v)"

section \<open>Headers and frames as text (string.cpp)\<close>

definition tostring :: "'a Header_scheme \<Rightarrow> bool \<Rightarrow> string" where
  "tostring h lc =
     (let (width, fill) = (if is_extended h then (8, CHR ''0'') else (0, CHR '' ''))
      in put_hex (fullid h AND NOT EXTENDED_MASK) lc width fill)"

definition tohex :: "string \<Rightarrow> u32" where
  "tohex s = get_hex s 0"

definition toheader :: "string \<Rightarrow> Header" where
  "toheader s =
     (let h = tohex s;
          ident = h AND ID_MASK
      in Header_ctor ident
           (h AND EXTENDED_MASK \<noteq> 0 \<or> (length s = 8 \<and> ident \<ge> push_bit 11 1))
           (h AND RTR_MASK \<noteq> 0) (h AND ERROR_MASK \<noteq> 0))"

text \<open>
  \<^verbatim>\<open>std::string::find_first_of\<close> and \<^verbatim>\<open>std::string::find\<close> for one character: the first
  index, \<open>None\<close> for \<^verbatim>\<open>npos\<close>. \<^verbatim>\<open>substr\<close> and \<^verbatim>\<open>at\<close> throw \<^verbatim>\<open>std::out_of_range\<close>.
\<close>

datatype error = out_of_range

fun find_first_of :: "string \<Rightarrow> string \<Rightarrow> nat option" where
  "find_first_of [] cs = None"
| "find_first_of (c # s) cs =
     (if c \<in> set cs then Some 0 else map_option Suc (find_first_of s cs))"

definition find_char :: "string \<Rightarrow> char \<Rightarrow> nat option" where
  "find_char s c = find_first_of s [c]"

definition substr :: "string \<Rightarrow> nat \<Rightarrow> nat option \<Rightarrow> error + string" where
  "substr s pos n =
     (if pos > length s then Inl out_of_range
      else Inr (case n of None \<Rightarrow> drop pos s | Some k \<Rightarrow> take k (drop pos s)))"

definition at :: "string \<Rightarrow> nat \<Rightarrow> error + char" where
  "at s i = (if i < length s then Inr (s ! i) else Inl out_of_range)"

text \<open>
  \<^verbatim>\<open>Frame toframe(const std::string & s)\<close>. \<open>uninit\<close> is what the array \<^verbatim>\<open>data\<close> of a
  frame that has just been built holds.
\<close>

definition toframe :: "string \<Rightarrow> u8 list \<Rightarrow> error + Frame" where
  "toframe s uninit =
     (case find_char s CHR ''#'' of
        None \<Rightarrow> Inr (Frame_ctor (MsgHeader 0xfff False) 0 uninit)
      | Some sep \<Rightarrow>
         (case substr s 0 (Some sep) of
            Inl e \<Rightarrow> Inl e
          | Inr header_text \<Rightarrow>
             let header = toheader header_text;
                 frame = Frame_ctor header 0 uninit
             in if Header_isValid header then
                  (case substr s (sep + 1) None of
                     Inl e \<Rightarrow> Inl e
                   | Inr payload \<Rightarrow>
                      let (ok, buffer) = hex2buffer [] payload False
                      in if ok then
                           if length buffer > 8 then Inr (Frame_ctor (MsgHeader 0xfff False) 0 uninit)
                           else Inr (frame
                                  \<lparr>data := fold (\<lambda>i d. d[i := buffer ! i]) [0..<length buffer] (data frame),
                                   dlc := of_nat (length buffer)\<rparr>)
                         else Inr frame)
                else Inr frame))"

section \<open>Filters from text (string.cpp)\<close>

text \<open>
  The classes \<^verbatim>\<open>FrameMaskFilter\<close> and \<^verbatim>\<open>FrameRangeFilter\<close> are declared in a header
  that is not among the sources: a filter is the constructor \<^verbatim>\<open>tofilter\<close> calls with its
  three arguments, and the constant \<^verbatim>\<open>FrameMaskFilter::MASK_RELAXED\<close> is an argument of
  \<open>tofilter\<close>. The result \<open>None\<close> is the null pointer \<^verbatim>\<open>filter\<close> starts with.
\<close>

datatype FrameFilter =
  FrameMaskFilter u32 u32 bool
| FrameRangeFilter u32 u32 bool

definition tofilter :: "u32 \<Rightarrow> string \<Rightarrow> error + FrameFilter option" where
  "tofilter MASK_RELAXED s =
     (let delim = find_first_of s '':~-_'' in
      case (case delim of
              None \<Rightarrow> Inr (CHR '':'', MASK_RELAXED)
            | Some d \<Rightarrow>
               (case at s d of
                  Inl e \<Rightarrow> Inl e
                | Inr t \<Rightarrow>
                   (case substr s (d + 1) None of
                      Inl e \<Rightarrow> Inl e
                    | Inr rest \<Rightarrow> Inr (t, tohex rest)))) of
        Inl e \<Rightarrow> Inl e
      | Inr (type, second) \<Rightarrow>
         (case substr s 0 delim of
            Inl e \<Rightarrow> Inl e
          | Inr header_text \<Rightarrow>
             let first = fullid (toheader header_text) in
             Inr (if type = CHR ''~'' then Some (FrameMaskFilter first second True)
                  else if type = CHR '':'' then Some (FrameMaskFilter first second False)
                  else if type = CHR ''_'' then Some (FrameRangeFilter first second True)
                  else if type = CHR ''-'' then Some (FrameRangeFilter first second False)
                  else None)))"

section \<open>Auxiliary notions\<close>

text \<open>
  What one round of the loop of \<^verbatim>\<open>hex2buffer\<close> decodes at index \<open>j\<close>: the byte of the
  two characters \<open>2 * j\<close> and \<open>2 * j + 1\<close>, or \<open>None\<close> when one of them is no hex digit.
  It serves to state what the loop computes.
\<close>

definition decode_pair :: "string \<Rightarrow> nat \<Rightarrow> u8 option" where
  "decode_pair inp j =
     (case hex2dec (inp ! (2 * j)) of
        None \<Rightarrow> None
      | Some hi \<Rightarrow>
         (case hex2dec (inp ! (2 * j + 1)) of
            None \<Rightarrow> None
          | Some lo \<Rightarrow> Some (push_bit 4 hi OR lo)))"



section \<open>Basic facts\<close>

lemma ID_MASK_mask: "ID_MASK = mask 29"
  by (simp add: ID_MASK_def mask_eq_exp_minus_1)

lemma bit_mask_test: "(h :: u32) AND push_bit n 1 \<noteq> 0 \<longleftrightarrow> bit h n"
  by (simp add: and_exp_eq_0_iff_not_bit)

lemma ucast_ID_MASK: "(ucast ((h :: u32) AND ID_MASK) :: 29 word) = ucast h"
  unfolding ID_MASK_mask by (rule bit_word_eqI) (simp add: bit_simps)

lemma unat_ID_MASK: "unat ((h :: u32) AND ID_MASK) = unat h mod 2 ^ 29"
proof -
  have "unat (take_bit 29 h) = take_bit 29 (unat h)"
    by (rule unsigned_take_bit_eq)
  also have "\<dots> = unat h mod 2 ^ 29"
    by (rule take_bit_eq_mod)
  finally show ?thesis
    by (simp only: ID_MASK_mask take_bit_eq_mask)
qed

lemma unat_id_ctor: "unat (id' (Header_ctor i extended rtr error)) = unat i mod 2 ^ 29"
  by (simp add: Header_ctor_def unsigned_ucast_eq take_bit_eq_mod)

lemma find_first_of_None: "find_first_of s cs = None \<longleftrightarrow> set s \<inter> set cs = {}"
  by (induction s) auto

lemma find_first_of_Some:
  "find_first_of s cs = Some i \<Longrightarrow> i < length s \<and> s ! i \<in> set cs \<and> set (take i s) \<inter> set cs = {}"
proof (induction s arbitrary: i)
  case Nil
  then show ?case by simp
next
  case (Cons c s)
  show ?case
  proof (cases "c \<in> set cs")
    case True
    with Cons.prems show ?thesis by simp
  next
    case False
    with Cons.prems obtain j where j: "find_first_of s cs = Some j" "i = Suc j"
      by auto
    from Cons.IH [OF j(1)] False j(2) show ?thesis by simp
  qed
qed

lemma sentinel_fields:
  "id' (Frame_ctor (MsgHeader 0xfff False) 0 u) = 0xfff"
  "\<not> is_extended (Frame_ctor (MsgHeader 0xfff False) 0 u)"
  "\<not> is_rtr (Frame_ctor (MsgHeader 0xfff False) 0 u)"
  "\<not> is_error (Frame_ctor (MsgHeader 0xfff False) 0 u)"
  "dlc (Frame_ctor (MsgHeader 0xfff False) 0 u) = 0"
  by (simp_all add: Frame_ctor_def MsgHeader_def Header_ctor_def)

lemma sentinel_invalid: "\<not> Header_isValid (Frame_ctor (MsgHeader 0xfff False) 0 u)"
  by (simp add: Header_isValid_def Frame_ctor_def MsgHeader_def Header_ctor_def)

lemma tohex_values:
  "tohex ''123'' = 0x123"
  "tohex ''fff'' = 0xfff"
  "tohex ''000007FF'' = 0x7FF"
  "tohex ''000007ff'' = 0x7FF"
  "tohex ''00000800'' = 0x800"
  by code_simp+

lemma toheader_values:
  "toheader ''123'' = Header_ctor 0x123 False False False"
  "toheader ''fff'' = Header_ctor 0xfff False False False"
  "toheader ''000007FF'' = Header_ctor 0x7FF False False False"
  "toheader ''000007ff'' = Header_ctor 0x7FF False False False"
  "toheader ''00000800'' = Header_ctor 0x800 True False False"
  by (simp_all add: toheader_def tohex_values ID_MASK_def EXTENDED_MASK_def RTR_MASK_def
      ERROR_MASK_def Header_ctor_def)

section \<open>Header construction and validity\<close>

text \<open>
  C6, as the code has it. The constructor is a total function: it builds a header from
  every \<^verbatim>\<open>unsigned int\<close> and three booleans. The field \<^verbatim>\<open>id\<close> has 29 bits, so it holds
  the id modulo \<open>2 ^ 29\<close>, and \<^verbatim>\<open>isValid()\<close> is true exactly when this stored id is below
  the bound that \<^verbatim>\<open>extended\<close> selects. For an id below \<open>2 ^ 29\<close> that does not fit the
  selected width \<^verbatim>\<open>isValid()\<close> is therefore false; an id of \<open>2 ^ 29\<close> or more is cut to
  29 bits first, and the header may be valid.
\<close>

theorem Header_ctor_isValid:
  "unat (id' (Header_ctor i extended rtr error)) = unat i mod 2 ^ 29
   \<and> is_extended (Header_ctor i extended rtr error) = extended
   \<and> is_rtr (Header_ctor i extended rtr error) = rtr
   \<and> is_error (Header_ctor i extended rtr error) = error
   \<and> (Header_isValid (Header_ctor i extended rtr error) \<longleftrightarrow>
        unat i mod 2 ^ 29 < (if extended then 2 ^ 29 else 2 ^ 11))"
proof -
  have "uint (id' (Header_ctor i extended rtr error)) = int (unat i mod 2 ^ 29)"
    by (simp only: unat_id_ctor uint_nat)
  then have "Header_isValid (Header_ctor i extended rtr error) \<longleftrightarrow>
      unat i mod 2 ^ 29 < (if extended then 2 ^ 29 else 2 ^ 11)"
    by (simp add: Header_isValid_def Header_ctor_def)
  then show ?thesis
    by (simp add: unat_id_ctor) (simp add: Header_ctor_def)
qed

theorem Header_ctor_isValid_witness:
  "\<not> Header_isValid (Header_ctor 0x800 False False False)
   \<and> Header_isValid (Header_ctor 0x7FF False False False)
   \<and> Header_isValid (Header_ctor 0x800 True False False)"
  using Header_ctor_isValid [of "0x800" False False False]
    Header_ctor_isValid [of "0x7FF" False False False]
    Header_ctor_isValid [of "0x800" True False False]
  by simp

text \<open>
  C6 as stated fails: the id \<open>2 ^ 29\<close> does not fit the 29 bits of an extended header,
  and the header built from it is valid (its stored id is 0).
\<close>

theorem Header_ctor_truncates_counterexample:
  "\<not> unat (0x20000000 :: u32) < 2 ^ 29
   \<and> Header_isValid (Header_ctor 0x20000000 True False False)
   \<and> id' (Header_ctor 0x20000000 True False False) = 0"
  by (simp add: Header_isValid_def Header_ctor_def)

section \<open>Headers from text\<close>


section \<open>Frames from text\<close>

text \<open>
  C7: for every string without the character \<^verbatim>\<open>#\<close>, \<^verbatim>\<open>toframe\<close> returns the frame
  built from \<^verbatim>\<open>MsgHeader(0xfff)\<close>: its id is \<^verbatim>\<open>0xfff\<close>, it is not extended, and
  \<^verbatim>\<open>isValid()\<close> is false for it, for the header as for the frame.
\<close>

theorem toframe_no_separator:
  assumes "CHR ''#'' \<notin> set s"
  shows "toframe s u = Inr (Frame_ctor (MsgHeader 0xfff False) 0 u)
    \<and> id' (Frame_ctor (MsgHeader 0xfff False) 0 u) = 0xfff
    \<and> \<not> is_extended (Frame_ctor (MsgHeader 0xfff False) 0 u)
    \<and> \<not> Header_isValid (Frame_ctor (MsgHeader 0xfff False) 0 u)
    \<and> \<not> Frame_isValid (Frame_ctor (MsgHeader 0xfff False) 0 u)"
proof -
  from assms have "find_char s CHR ''#'' = None"
    by (simp add: find_char_def find_first_of_None)
  then have "toframe s u = Inr (Frame_ctor (MsgHeader 0xfff False) 0 u)"
    by (simp add: toframe_def)
  then show ?thesis
    by (simp add: sentinel_fields sentinel_invalid Frame_isValid_def)
qed

theorem toframe_no_separator_witness:
  "CHR ''#'' \<notin> set ''123''
   \<and> toframe ''123'' (replicate 8 0) = Inr (Frame_ctor (MsgHeader 0xfff False) 0 (replicate 8 0))
   \<and> \<not> Header_isValid (Frame_ctor (MsgHeader 0xfff False) 0 (replicate 8 0))"
proof -
  have h: "CHR ''#'' \<notin> set ''123''" by simp
  show ?thesis using h toframe_no_separator [OF h, of "replicate 8 0"] by blast
qed

section \<open>Filters from text\<close>

text \<open>
  C4, as the code has it: for every string with none of the characters \<^verbatim>\<open>:\<close>, \<^verbatim>\<open>~\<close>,
  \<^verbatim>\<open>-\<close>, \<^verbatim>\<open>_\<close>, \<^verbatim>\<open>tofilter\<close> signals no error: it returns a mask filter that is not
  inverted, built from the full id of the header the whole string parses to and the
  mask \<^verbatim>\<open>MASK_RELAXED\<close>.
\<close>

theorem tofilter_no_separator:
  assumes "set s \<inter> set '':~-_'' = {}"
  shows "tofilter m s = Inr (Some (FrameMaskFilter (fullid (toheader s)) m False))"
proof -
  from assms have "find_first_of s '':~-_'' = None"
    by (simp only: find_first_of_None)
  then show ?thesis
    by (simp add: tofilter_def substr_def)
qed

theorem tofilter_no_separator_witness:
  "set ''7ff'' \<inter> set '':~-_'' = {}
   \<and> tofilter 0 ''7ff'' = Inr (Some (FrameMaskFilter (fullid (toheader ''7ff'')) 0 False))"
proof -
  have h: "set ''7ff'' \<inter> set '':~-_'' = {}" by simp
  show ?thesis using h tofilter_no_separator [OF h, of 0] by simp
qed

text \<open>
  C4 as stated fails: \<^verbatim>\<open>"123"\<close> has no separator, and \<^verbatim>\<open>tofilter\<close> returns a filter
  for it, neither an exception nor the null pointer (here with the mask \<^verbatim>\<open>0x1fffffff\<close>
  for \<^verbatim>\<open>MASK_RELAXED\<close>, whose value plays no part).
\<close>

theorem tofilter_defaults_counterexample:
  "set ''123'' \<inter> set '':~-_'' = {}
   \<and> tofilter 0x1FFFFFFF ''123'' = Inr (Some (FrameMaskFilter 0x123 0x1FFFFFFF False))"
  by (simp add: tofilter_def substr_def toheader_values fullid_def Header_ctor_def)

section \<open>The hexadecimal codec\<close>

lemma nibble_hi: "drop_bit 4 (d :: u8) < 16"
proof -
  have "unat (drop_bit 4 d) < 16"
    using unsigned_less [of d, where 'a = nat] by (simp add: drop_bit_eq_div unat_div)
  then show ?thesis by (simp add: word_less_nat_alt)
qed

lemma nibble_lo: "(d :: u8) AND 0xf < 16"
proof -
  have "d AND 0xf \<le> 0xf" by (rule word_and_le1)
  then show ?thesis by (simp add: word_le_nat_alt word_less_nat_alt)
qed

lemma nibbles_join: "push_bit 4 (drop_bit 4 d) OR (d AND 0xf) = (d :: u8)"
proof -
  have m: "d AND 0xf = take_bit 4 d"
    by (simp add: take_bit_eq_mask mask_eq_exp_minus_1)
  show ?thesis
    unfolding m by (rule bit_word_eqI) (auto simp add: bit_simps)
qed

lemma dec2hex_nibble:
  assumes "(d :: u8) < 16"
  shows "fst (dec2hex d lc)" and "hex2dec (snd (dec2hex d lc)) = Some d"
proof -
  from assms have u: "unat d < 16" by (simp add: word_less_nat_alt)
  show "fst (dec2hex d lc)" using assms by (simp add: dec2hex_def)
  show "hex2dec (snd (dec2hex d lc)) = Some d"
  proof (cases "d < 10")
    case True
    then have "unat d < 10" by (simp add: word_less_nat_alt)
    then show ?thesis using True by (simp add: dec2hex_def hex2dec_def)
  next
    case False
    then have "10 \<le> unat d" by (simp add: word_less_nat_alt)
    with u have "of_nat (unat d - 10 + 10) = d" by simp
    with u \<open>10 \<le> unat d\<close> False assms show ?thesis
      by (cases lc) (simp_all add: dec2hex_def hex2dec_def Let_def)
  qed
qed

lemma byte2hex_pad:
  "byte2hex d True lc = [snd (dec2hex (drop_bit 4 d) lc), snd (dec2hex (d AND 0xf) lc)]"
  by (simp add: byte2hex_def Let_def)

lemma byte2hex_not_empty: "byte2hex d pad lc \<noteq> []"
  by (simp add: byte2hex_def Let_def)

lemma buffer2hex_loop_concat:
  "buffer2hex_loop ds lc s = s @ concat (map (\<lambda>d. byte2hex d True lc) ds)"
  by (induction ds arbitrary: s) (simp_all add: Let_def byte2hex_not_empty)

lemma buffer2hex_concat: "buffer2hex inp lc = concat (map (\<lambda>d. byte2hex d True lc) inp)"
  by (simp add: buffer2hex_def buffer2hex_loop_concat)

lemma length_buffer2hex: "length (buffer2hex inp lc) = 2 * length inp"
  by (induction inp) (simp_all add: buffer2hex_concat byte2hex_pad)

lemma buffer2hex_nth:
  "j < length inp \<Longrightarrow>
     buffer2hex inp lc ! (2 * j) = snd (dec2hex (drop_bit 4 (inp ! j)) lc)
     \<and> buffer2hex inp lc ! (2 * j + 1) = snd (dec2hex (inp ! j AND 0xf) lc)"
proof (induction inp arbitrary: j)
  case Nil
  then show ?case by simp
next
  case (Cons d ds)
  show ?case
  proof (cases j)
    case 0
    then show ?thesis by (simp add: buffer2hex_concat byte2hex_pad)
  next
    case (Suc k)
    with Cons.prems have "k < length ds" by simp
    from Cons.IH [OF this] Suc show ?thesis
      by (simp add: buffer2hex_concat byte2hex_pad)
  qed
qed

lemma hex2dec_buffer2hex: "c \<in> set (buffer2hex inp lc) \<Longrightarrow> hex2dec c \<noteq> None"
  by (induction inp) (auto simp add: buffer2hex_concat byte2hex_pad dec2hex_nibble nibble_hi nibble_lo)

lemma decode_pair_buffer2hex:
  assumes "j < length inp"
  shows "decode_pair (buffer2hex inp lc) j = Some (inp ! j)"
  using buffer2hex_nth [OF assms, of lc]
  by (simp add: decode_pair_def dec2hex_nibble nibble_hi nibble_lo nibbles_join)

lemma hex2buffer_loop_unfold:
  "hex2buffer_loop i inp out =
     (if i < length out then
        (case decode_pair inp i of
           None \<Rightarrow> (False, out)
         | Some v \<Rightarrow> hex2buffer_loop (i + 1) inp (out[i := v]))
      else (True, out))"
  by (subst hex2buffer_loop.simps) (simp add: decode_pair_def split: option.splits)

lemma hex2buffer_loop_length: "length (snd (hex2buffer_loop i inp out)) = length out"
proof (induction "length out - i" arbitrary: i out)
  case 0
  then show ?case by (subst hex2buffer_loop_unfold) simp
next
  case (Suc n)
  then have "i < length out" by simp
  show ?case
  proof (cases "decode_pair inp i")
    case None
    then show ?thesis by (subst hex2buffer_loop_unfold) simp
  next
    case (Some v)
    from Suc.hyps(2) have "n = length (out[i := v]) - (i + 1)" by simp
    from Suc.hyps(1) [OF this] Some \<open>i < length out\<close> show ?thesis
      by (subst hex2buffer_loop_unfold) simp
  qed
qed

lemma hex2buffer_loop_fst:
  "fst (hex2buffer_loop i inp out) \<longleftrightarrow>
     (\<forall>j. i \<le> j \<and> j < length out \<longrightarrow> decode_pair inp j \<noteq> None)"
proof (induction "length out - i" arbitrary: i out)
  case 0
  then show ?case by (subst hex2buffer_loop_unfold) auto
next
  case (Suc n)
  then have i: "i < length out" by simp
  show ?case
  proof (cases "decode_pair inp i")
    case None
    with i show ?thesis by (subst hex2buffer_loop_unfold) auto
  next
    case (Some v)
    from Suc.hyps(2) have "n = length (out[i := v]) - (i + 1)" by simp
    from Suc.hyps(1) [OF this]
    have "fst (hex2buffer_loop (i + 1) inp (out[i := v])) \<longleftrightarrow>
        (\<forall>j. i + 1 \<le> j \<and> j < length out \<longrightarrow> decode_pair inp j \<noteq> None)"
      by simp
    moreover have "(\<forall>j. i + 1 \<le> j \<and> j < length out \<longrightarrow> decode_pair inp j \<noteq> None) \<longleftrightarrow>
        (\<forall>j. i \<le> j \<and> j < length out \<longrightarrow> decode_pair inp j \<noteq> None)"
    proof -
      have "\<And>j. i \<le> j \<longleftrightarrow> j = i \<or> i + 1 \<le> j" by auto
      with Some show ?thesis by auto
    qed
    ultimately show ?thesis using Some i by (subst hex2buffer_loop_unfold) simp
  qed
qed

lemma hex2buffer_loop_ok:
  assumes "\<forall>j. i \<le> j \<and> j < length out \<longrightarrow> decode_pair inp j = Some (f j)"
  shows "hex2buffer_loop i inp out = (True, take i out @ map f [i..<length out])"
  using assms
proof (induction "length out - i" arbitrary: i out)
  case 0
  then show ?case by (subst hex2buffer_loop_unfold) simp
next
  case (Suc n)
  then have i: "i < length out" by simp
  with Suc.prems have v: "decode_pair inp i = Some (f i)" by simp
  from Suc.hyps(2) have n: "n = length (out[i := f i]) - (i + 1)" by simp
  from Suc.prems
  have "\<forall>j. i + 1 \<le> j \<and> j < length (out[i := f i]) \<longrightarrow> decode_pair inp j = Some (f j)"
    by simp
  from Suc.hyps(1) [OF n this]
  have "hex2buffer_loop (i + 1) inp (out[i := f i]) =
      (True, take (i + 1) (out[i := f i]) @ map f [i + 1..<length out])"
    by simp
  moreover from i have "take (i + 1) (out[i := f i]) = take i out @ [f i]"
    by (simp add: take_Suc_conv_app_nth)
  moreover from i have "[i..<length out] = i # [i + 1..<length out]"
    by (simp add: upt_conv_Cons)
  ultimately show ?case using v i by (subst hex2buffer_loop_unfold) simp
qed

lemma length_resize: "length (resize n out) = n"
  by (simp add: resize_def)

text \<open>
  C8: for every byte sequence \<open>b\<close>, so for every one that is not empty, decoding the text
  \<^verbatim>\<open>buffer2hex(b, lc)\<close> with \<^verbatim>\<open>hex2buffer\<close> succeeds and leaves \<open>b\<close> in the output
  buffer, for both cases of letters, with and without padding, and whatever the buffer
  held before.
\<close>

theorem hex2buffer_buffer2hex: "hex2buffer out (buffer2hex b lc) pad = (True, b)"
proof -
  let ?inp = "buffer2hex b lc"
  let ?out = "resize (length b) out"
  have "\<forall>j. 0 \<le> j \<and> j < length ?out \<longrightarrow> decode_pair ?inp j = Some (b ! j)"
    by (simp add: length_resize decode_pair_buffer2hex)
  then have "hex2buffer_loop 0 ?inp ?out = (True, take 0 ?out @ map (\<lambda>j. b ! j) [0..<length ?out])"
    by (rule hex2buffer_loop_ok)
  then have "hex2buffer_loop 0 ?inp ?out = (True, b)"
    by (simp add: length_resize map_nth)
  then show ?thesis
    by (simp add: hex2buffer_def length_buffer2hex drop_bit_eq_div)
qed

theorem hex2buffer_buffer2hex_witness:
  "hex2buffer [] (buffer2hex [0xde, 0xad] True) False = (True, [0xde, 0xad])
   \<and> buffer2hex [0xde, 0xad] True = ''dead''"
proof -
  have v: "buffer2hex [0xde, 0xad] True = ''dead''" by code_simp
  show ?thesis using hex2buffer_buffer2hex [of "[]" "[0xde, 0xad]" True False] v by blast
qed


text \<open>
  C10: the failure branch of \<^verbatim>\<open>buffer2hex\<close> is never taken. Both nibbles of a byte are
  below 16, so \<^verbatim>\<open>dec2hex\<close> succeeds on them; \<^verbatim>\<open>byte2hex\<close> is never empty and has two
  characters when padded; \<^verbatim>\<open>buffer2hex\<close> is the concatenation of the encodings of all
  bytes, has twice as many characters as the input has bytes, all of them hex digits,
  and is not empty for an input that is not.
\<close>

theorem buffer2hex_total:
  "fst (dec2hex (drop_bit 4 d) lc) \<and> fst (dec2hex (d AND 0xf) lc)
   \<and> byte2hex d pad lc \<noteq> [] \<and> length (byte2hex d True lc) = 2
   \<and> buffer2hex inp lc = concat (map (\<lambda>d. byte2hex d True lc) inp)
   \<and> length (buffer2hex inp lc) = 2 * length inp
   \<and> (\<forall>c\<in>set (buffer2hex inp lc). hex2dec c \<noteq> None)
   \<and> (inp \<noteq> [] \<longrightarrow> buffer2hex inp lc \<noteq> [])"
proof -
  have "inp \<noteq> [] \<longrightarrow> buffer2hex inp lc \<noteq> []"
    using length_buffer2hex [of inp lc] by auto
  moreover have "\<forall>c\<in>set (buffer2hex inp lc). hex2dec c \<noteq> None"
    using hex2dec_buffer2hex by blast
  moreover have "length (byte2hex d True lc) = 2"
    by (simp add: byte2hex_pad)
  ultimately show ?thesis
    using dec2hex_nibble(1) [OF nibble_hi, of d lc] dec2hex_nibble(1) [OF nibble_lo, of d lc]
      byte2hex_not_empty [of d pad lc] buffer2hex_concat [of inp lc] length_buffer2hex [of inp lc]
    by blast
qed

theorem buffer2hex_total_witness:
  "length (buffer2hex [0x12, 0xab, 0] False) = 2 * length [0x12 :: u8, 0xab, 0]
   \<and> buffer2hex [0x12, 0xab, 0] False \<noteq> []
   \<and> buffer2hex [0x12, 0xab, 0] False = ''12AB00''
   \<and> hex2dec CHR ''A'' \<noteq> None"
proof -
  note t = buffer2hex_total [of 0 False False "[0x12, 0xab, 0]"]
  have ne: "[0x12 :: u8, 0xab, 0] \<noteq> []" by simp
  have v: "buffer2hex [0x12, 0xab, 0] False = ''12AB00''" by code_simp
  from t have "length (buffer2hex [0x12, 0xab, 0] False) = 2 * length [0x12 :: u8, 0xab, 0]"
    by blast
  moreover from t ne have "buffer2hex [0x12, 0xab, 0] False \<noteq> []"
    by blast
  moreover have "CHR ''A'' \<in> set (buffer2hex [0x12, 0xab, 0] False)"
    by (simp add: v)
  with t have "hex2dec CHR ''A'' \<noteq> None"
    by blast
  ultimately show ?thesis using v by blast
qed

lemma hex2buffer_loop_fail:
  assumes "i \<le> k" "k < length out" "decode_pair inp k = None"
    and "\<forall>j. i \<le> j \<and> j < k \<longrightarrow> decode_pair inp j = Some (f j)"
  shows "hex2buffer_loop i inp out = (False, take i out @ map f [i..<k] @ drop k out)"
  using assms
proof (induction "k - i" arbitrary: i out)
  case 0
  then have "i = k" by simp
  with 0 show ?case by (subst hex2buffer_loop_unfold) simp
next
  case (Suc n)
  then have i: "i < k" "i < length out" by simp_all
  with Suc.prems have v: "decode_pair inp i = Some (f i)" by simp
  from Suc.hyps(2) have n: "n = k - (i + 1)" by simp
  from i Suc.prems
  have "hex2buffer_loop (i + 1) inp (out[i := f i]) =
      (False, take (i + 1) (out[i := f i]) @ map f [i + 1..<k] @ drop k (out[i := f i]))"
    by (intro Suc.hyps(1) [OF n]) simp_all
  moreover from i have "take (i + 1) (out[i := f i]) = take i out @ [f i]"
    by (simp add: take_Suc_conv_app_nth)
  moreover from i have "[i..<k] = i # [i + 1..<k]"
    by (simp add: upt_conv_Cons)
  moreover from i have "drop k (out[i := f i]) = drop k out"
    by simp
  ultimately show ?case using v i by (subst hex2buffer_loop_unfold) simp
qed

lemma decode_pair_None:
  "decode_pair inp j = None \<longleftrightarrow>
     hex2dec (inp ! (2 * j)) = None \<or> hex2dec (inp ! (2 * j + 1)) = None"
  by (simp add: decode_pair_def split: option.splits)

lemma pairs_good_iff:
  assumes "length inp = 2 * n"
  shows "(\<forall>j<n. decode_pair inp j \<noteq> None) \<longleftrightarrow> (\<forall>c\<in>set inp. hex2dec c \<noteq> None)"
proof
  assume good: "\<forall>j<n. decode_pair inp j \<noteq> None"
  show "\<forall>c\<in>set inp. hex2dec c \<noteq> None"
  proof
    fix c assume "c \<in> set inp"
    then obtain i where i: "i < length inp" "inp ! i = c"
      by (auto simp add: in_set_conv_nth)
    with assms have "i div 2 < n" by simp
    with good have "decode_pair inp (i div 2) \<noteq> None" by simp
    then have "hex2dec (inp ! (2 * (i div 2))) \<noteq> None"
      and "hex2dec (inp ! (2 * (i div 2) + 1)) \<noteq> None"
      by (simp_all add: decode_pair_None)
    moreover have "i = 2 * (i div 2) \<or> i = 2 * (i div 2) + 1" by presburger
    ultimately show "hex2dec c \<noteq> None" using i(2) by metis
  qed
next
  assume hex: "\<forall>c\<in>set inp. hex2dec c \<noteq> None"
  show "\<forall>j<n. decode_pair inp j \<noteq> None"
  proof (intro allI impI)
    fix j assume "j < n"
    with assms have "2 * j < length inp" "2 * j + 1 < length inp" by simp_all
    then have "inp ! (2 * j) \<in> set inp" "inp ! (2 * j + 1) \<in> set inp"
      by (simp_all only: nth_mem)
    with hex show "decode_pair inp j \<noteq> None"
      by (simp add: decode_pair_None)
  qed
qed

lemma hex2dec_zero: "hex2dec CHR ''0'' = Some 0"
  by (simp add: hex2dec_def)

lemma hex2buffer_odd:
  "odd (length in_raw) \<Longrightarrow> \<not> pad \<Longrightarrow> hex2buffer out in_raw pad = (False, out)"
  by (simp add: hex2buffer_def odd_iff_mod_2_eq_one)

lemma hex2buffer_even:
  assumes "even (length in_raw) \<or> pad"
  shows "hex2buffer out in_raw pad =
     hex2buffer_loop 0 (if odd (length in_raw) then CHR ''0'' # in_raw else in_raw)
       (resize ((length in_raw + 1) div 2) out)"
proof (cases "even (length in_raw)")
  case True
  then have "length in_raw mod 2 = 0" "(length in_raw + 1) div 2 = length in_raw div 2"
    by presburger+
  with True show ?thesis
    by (simp add: hex2buffer_def drop_bit_eq_div)
next
  case False
  then have "length in_raw mod 2 = 1" by presburger
  with False assms show ?thesis
    by (simp add: hex2buffer_def drop_bit_eq_div)
qed

lemma hex2buffer_fst:
  "fst (hex2buffer out in_raw pad) \<longleftrightarrow>
     (even (length in_raw) \<or> pad) \<and> (\<forall>c\<in>set in_raw. hex2dec c \<noteq> None)"
proof (cases "even (length in_raw) \<or> pad")
  case False
  then show ?thesis by (simp add: hex2buffer_odd)
next
  case True
  let ?inp = "if odd (length in_raw) then CHR ''0'' # in_raw else in_raw"
  let ?n = "(length in_raw + 1) div 2"
  have len: "length ?inp = 2 * ?n"
    by (auto elim!: oddE evenE)
  have "fst (hex2buffer out in_raw pad) \<longleftrightarrow> (\<forall>j<?n. decode_pair ?inp j \<noteq> None)"
    by (simp only: hex2buffer_even [OF True] hex2buffer_loop_fst length_resize) simp
  also have "\<dots> \<longleftrightarrow> (\<forall>c\<in>set ?inp. hex2dec c \<noteq> None)"
    by (rule pairs_good_iff [OF len])
  also have "\<dots> \<longleftrightarrow> (\<forall>c\<in>set in_raw. hex2dec c \<noteq> None)"
    by (simp add: hex2dec_zero)
  finally show ?thesis using True by simp
qed

lemma hex2buffer_length:
  "even (length in_raw) \<or> pad \<Longrightarrow>
     length (snd (hex2buffer out in_raw pad)) = (length in_raw + 1) div 2"
  by (simp only: hex2buffer_even hex2buffer_loop_length length_resize)

section \<open>Decoding failures\<close>

text \<open>
  C5, as the code has it. For every input of \<^verbatim>\<open>hex2buffer\<close> a failure is reported by
  the return value false, and that is the case exactly when the length is odd with no
  padding asked for, or some character is no hex digit. After the failure for an odd
  length the output buffer is what it was. In every other case, a failure for a
  character that is no hex digit among them, the buffer has been resized to half the
  length of the (padded) input, and when the pair at index \<open>k\<close> is the first that does not
  decode, the \<open>k\<close> bytes before it have been stored, the rest being what the resizing
  left.
\<close>

theorem hex2buffer_failure:
  "(\<not> fst (hex2buffer out in_raw pad) \<longleftrightarrow>
      odd (length in_raw) \<and> \<not> pad \<or> (\<exists>c\<in>set in_raw. hex2dec c = None))
   \<and> (odd (length in_raw) \<and> \<not> pad \<longrightarrow> snd (hex2buffer out in_raw pad) = out)
   \<and> (even (length in_raw) \<or> pad \<longrightarrow>
        length (snd (hex2buffer out in_raw pad)) = (length in_raw + 1) div 2
        \<and> (\<forall>k. k < (length in_raw + 1) div 2
              \<and> decode_pair (if odd (length in_raw) then CHR ''0'' # in_raw else in_raw) k = None
              \<and> (\<forall>j<k. decode_pair (if odd (length in_raw) then CHR ''0'' # in_raw else in_raw) j \<noteq> None)
            \<longrightarrow> snd (hex2buffer out in_raw pad) =
                  map (\<lambda>j. the (decode_pair (if odd (length in_raw) then CHR ''0'' # in_raw else in_raw) j)) [0..<k]
                  @ drop k (resize ((length in_raw + 1) div 2) out)))"
proof (intro conjI impI allI)
  show "\<not> fst (hex2buffer out in_raw pad) \<longleftrightarrow>
      odd (length in_raw) \<and> \<not> pad \<or> (\<exists>c\<in>set in_raw. hex2dec c = None)"
    by (auto simp add: hex2buffer_fst)
next
  assume "odd (length in_raw) \<and> \<not> pad"
  then show "snd (hex2buffer out in_raw pad) = out"
    by (simp add: hex2buffer_odd)
next
  assume "even (length in_raw) \<or> pad"
  then show "length (snd (hex2buffer out in_raw pad)) = (length in_raw + 1) div 2"
    by (rule hex2buffer_length)
next
  let ?inp = "if odd (length in_raw) then CHR ''0'' # in_raw else in_raw"
  let ?n = "(length in_raw + 1) div 2"
  fix k
  assume ev: "even (length in_raw) \<or> pad"
    and k: "k < ?n \<and> decode_pair ?inp k = None \<and> (\<forall>j<k. decode_pair ?inp j \<noteq> None)"
  have "hex2buffer_loop 0 ?inp (resize ?n out) =
      (False, take 0 (resize ?n out) @ map (\<lambda>j. the (decode_pair ?inp j)) [0..<k]
         @ drop k (resize ?n out))"
    using k by (intro hex2buffer_loop_fail) (auto simp add: length_resize)
  then show "snd (hex2buffer out in_raw pad) =
      map (\<lambda>j. the (decode_pair ?inp j)) [0..<k] @ drop k (resize ?n out)"
    by (simp add: hex2buffer_even [OF ev])
qed

theorem hex2buffer_failure_witness:
  "\<not> fst (hex2buffer [7, 7, 7] ''12zz'' False)
   \<and> length (snd (hex2buffer [7, 7, 7] ''12zz'' False)) = 2
   \<and> snd (hex2buffer [7, 7, 7] ''12zz'' False) = [0x12, 7]
   \<and> snd (hex2buffer [7, 7, 7] ''123'' False) = [7, 7, 7]"
proof -
  note t = hex2buffer_failure [of "[7, 7, 7]" "''12zz''" False]
  note t' = hex2buffer_failure [of "[7, 7, 7]" "''123''" False]
  have z: "hex2dec CHR ''z'' = None" by code_simp
  have "CHR ''z'' \<in> set ''12zz''" by simp
  with t z have a: "\<not> fst (hex2buffer [7, 7, 7] ''12zz'' False)" by blast
  have "even (length ''12zz'') \<or> False" by simp
  with t have "length (snd (hex2buffer [7, 7, 7] ''12zz'' False)) = (length ''12zz'' + 1) div 2"
    by blast
  then have l: "length (snd (hex2buffer [7, 7, 7] ''12zz'' False)) = 2" by simp
  have b: "snd (hex2buffer [7, 7, 7] ''12zz'' False) = [0x12, 7]" by code_simp
  have "odd (length ''123'') \<and> \<not> False" by simp
  with t' have c: "snd (hex2buffer [7, 7, 7] ''123'' False) = [7, 7, 7]" by blast
  from a l b c show ?thesis by blast
qed

text \<open>
  C5 as stated fails: decoding \<^verbatim>\<open>"12zz"\<close> into an empty buffer fails, and the buffer
  then holds the two bytes \<^verbatim>\<open>0x12\<close> and \<^verbatim>\<open>0x00\<close>.
\<close>

theorem hex2buffer_partial_counterexample:
  "\<not> fst (hex2buffer [] ''12zz'' False) \<and> snd (hex2buffer [] ''12zz'' False) = [0x12, 0]
   \<and> snd (hex2buffer [] ''12zz'' False) \<noteq> []"
  by code_simp

section \<open>Frames from text with a separator\<close>

lemma find_first_of_append:
  "set a \<inter> set cs = {} \<Longrightarrow> c \<in> set cs \<Longrightarrow> find_first_of (a @ c # b) cs = Some (length a)"
  by (induction a) simp_all

lemma find_char_split:
  "c \<notin> set a \<Longrightarrow> find_char (a @ c # b) c = Some (length a)"
  by (simp add: find_char_def find_first_of_append)

lemma toframe_split:
  assumes "CHR ''#'' \<notin> set header_text"
  shows "toframe (header_text @ CHR ''#'' # payload) u =
     (let header = toheader header_text;
          frame = Frame_ctor header 0 u
      in if Header_isValid header then
           let (ok, buffer) = hex2buffer [] payload False
           in if ok then
                if length buffer > 8 then Inr (Frame_ctor (MsgHeader 0xfff False) 0 u)
                else Inr (frame
                       \<lparr>data := fold (\<lambda>i d. d[i := buffer ! i]) [0..<length buffer] (data frame),
                        dlc := of_nat (length buffer)\<rparr>)
              else Inr frame
         else Inr frame)"
  by (simp add: toframe_def find_char_split [OF assms] substr_def Let_def)

lemma string_split:
  assumes "c \<in> set s"
  shows "\<exists>a b. s = a @ c # b \<and> c \<notin> set a"
  using assms by (rule split_list_first)

text \<open>
  C9, as the code has it. A string with the character \<^verbatim>\<open>#\<close> is, in one way only, a
  header text without \<^verbatim>\<open>#\<close>, the character \<^verbatim>\<open>#\<close> and a payload text. When the payload
  text has an odd length or a character that is no hex digit, \<^verbatim>\<open>toframe\<close> returns the
  frame built from the header parsed from the header text, with \<^verbatim>\<open>dlc == 0\<close>, and the
  payload is dropped. This frame is the one built from \<^verbatim>\<open>MsgHeader(0xfff)\<close> exactly when
  the header text itself parses to that header.
\<close>

theorem toframe_bad_payload:
  assumes "CHR ''#'' \<notin> set header_text"
    and "odd (length payload) \<or> (\<exists>c\<in>set payload. hex2dec c = None)"
  shows "toframe (header_text @ CHR ''#'' # payload) u = Inr (Frame_ctor (toheader header_text) 0 u)
    \<and> dlc (Frame_ctor (toheader header_text) 0 u) = 0
    \<and> Header.truncate (Frame_ctor (toheader header_text) 0 u) = toheader header_text
    \<and> (Frame_ctor (toheader header_text) 0 u = Frame_ctor (MsgHeader 0xfff False) 0 u
         \<longleftrightarrow> toheader header_text = MsgHeader 0xfff False)"
proof -
  from assms(2) have "\<not> fst (hex2buffer [] payload False)"
    by (auto simp add: hex2buffer_fst)
  then have "toframe (header_text @ CHR ''#'' # payload) u = Inr (Frame_ctor (toheader header_text) 0 u)"
    by (cases "hex2buffer [] payload False") (simp add: toframe_split [OF assms(1)] Let_def)
  moreover have "dlc (Frame_ctor (toheader header_text) 0 u) = 0"
    by (simp add: Frame_ctor_def)
  moreover have t: "Header.truncate (Frame_ctor h 0 u) = h" for h
    by (simp add: Frame_ctor_def Header.truncate_def)
  moreover have "Frame_ctor (toheader header_text) 0 u = Frame_ctor (MsgHeader 0xfff False) 0 u
         \<longleftrightarrow> toheader header_text = MsgHeader 0xfff False"
    using t by metis
  ultimately show ?thesis by blast
qed

theorem toframe_bad_payload_witness:
  "toframe ''123#abc'' (replicate 8 0) = Inr (Frame_ctor (toheader ''123'') 0 (replicate 8 0))
   \<and> toframe ''123#abc'' (replicate 8 0) \<noteq> Inr (Frame_ctor (MsgHeader 0xfff False) 0 (replicate 8 0))"
proof -
  have h: "CHR ''#'' \<notin> set ''123''" by simp
  have p: "odd (length ''abc'') \<or> (\<exists>c\<in>set ''abc''. hex2dec c = None)" by simp
  have n: "toheader ''123'' \<noteq> MsgHeader 0xfff False"
    by (simp add: toheader_values MsgHeader_def Header_ctor_def)
  from toframe_bad_payload [OF h p, of "replicate 8 0"] n show ?thesis by simp
qed

text \<open>
  C9 as stated fails where the header text parses to the standard header with id
  \<^verbatim>\<open>0xfff\<close>: for \<^verbatim>\<open>"fff#x"\<close> the payload does not decode, and the frame returned is the
  frame built from \<^verbatim>\<open>MsgHeader(0xfff)\<close>.
\<close>

theorem toframe_bad_payload_sentinel_counterexample:
  "CHR ''#'' \<in> set ''fff#x''
   \<and> odd (length ''x'')
   \<and> toframe ''fff#x'' (replicate 8 0) = Inr (Frame_ctor (MsgHeader 0xfff False) 0 (replicate 8 0))"
proof -
  have "toframe (''fff'' @ CHR ''#'' # ''x'') (replicate 8 0) =
      Inr (Frame_ctor (MsgHeader 0xfff False) 0 (replicate 8 0))"
    by (subst toframe_split)
      (simp_all add: toheader_values Header_isValid_def Header_ctor_def MsgHeader_def)
  then show ?thesis by simp
qed

lemma hex2buffer_empty: "hex2buffer [] [] False = (True, [])"
  by code_simp

lemma toframe_7ff:
  "toframe ''000007FF#'' u = Inr (Frame_ctor (Header_ctor 0x7FF False False False) 0 u)"
proof -
  have "toframe (''000007FF'' @ CHR ''#'' # []) u =
      Inr (Frame_ctor (Header_ctor 0x7FF False False False) 0 u)"
    by (subst toframe_split)
      (simp_all add: toheader_values hex2buffer_empty Header_isValid_def Header_ctor_def,
        simp add: Frame_ctor_def)
  then show ?thesis by simp
qed

lemma toframe_800:
  "toframe ''00000800#'' u = Inr (Frame_ctor (Header_ctor 0x800 True False False) 0 u)"
proof -
  have "toframe (''00000800'' @ CHR ''#'' # []) u =
      Inr (Frame_ctor (Header_ctor 0x800 True False False) 0 u)"
    by (subst toframe_split)
      (simp_all add: toheader_values hex2buffer_empty Header_isValid_def Header_ctor_def,
        simp add: Frame_ctor_def)
  then show ?thesis by simp
qed

text \<open>
  C2, as the code has it: \<^verbatim>\<open>toframe("000007FF#")\<close> gives the id \<^verbatim>\<open>0x7FF\<close>, no payload
  and \<^verbatim>\<open>is_extended == false\<close>. The length of 8 characters makes a header extended only
  when the id is at least \<open>2 ^ 11\<close>, as for \<^verbatim>\<open>"00000800#"\<close>.
\<close>

theorem toframe_8_digits:
  "toframe ''000007FF#'' u = Inr (Frame_ctor (Header_ctor 0x7FF False False False) 0 u)
   \<and> \<not> is_extended (Frame_ctor (Header_ctor 0x7FF False False False) 0 u)
   \<and> toframe ''00000800#'' u = Inr (Frame_ctor (Header_ctor 0x800 True False False) 0 u)
   \<and> is_extended (Frame_ctor (Header_ctor 0x800 True False False) 0 u)"
  by (simp add: toframe_7ff toframe_800 Frame_ctor_def Header_ctor_def)

theorem toframe_8_digits_witness:
  "toframe ''000007FF#'' (replicate 8 0) =
     Inr (Frame_ctor (Header_ctor 0x7FF False False False) 0 (replicate 8 0))
   \<and> \<not> is_extended (Frame_ctor (Header_ctor 0x7FF False False False) 0 (replicate 8 0))"
  using toframe_8_digits [of "replicate 8 0"] by blast

text \<open>C2 as stated fails: the header of \<^verbatim>\<open>toframe("000007FF#")\<close> is not extended.\<close>

theorem toframe_8_digits_counterexample:
  "toframe ''000007FF#'' (replicate 8 0) =
     Inr \<lparr>id' = 0x7FF, is_error = False, is_rtr = False, is_extended = False,
          data = replicate 8 0, dlc = 0\<rparr>"
  by (simp add: toframe_7ff Frame_ctor_def Header_ctor_def)

section \<open>Headers to text and back\<close>

lemma xdigit_hex_digit_char:
  assumes "n < 16"
  shows "xdigit (hex_digit_char n lc) = Some n"
proof -
  have "\<forall>k\<in>set [0..<16]. xdigit (hex_digit_char k lc) = Some k"
    by (simp add: upt_rec hex_digit_char_def xdigit_def)
  moreover from assms have "n \<in> set [0..<16]" by simp
  ultimately show ?thesis by blast
qed

lemma xdigit_not_special:
  assumes "xdigit c \<noteq> None"
  shows "\<not> isspace c" "c \<noteq> CHR ''-''" "c \<noteq> CHR ''+''" "c \<noteq> CHR ''x''" "c \<noteq> CHR ''X''"
  using assms by (auto simp add: xdigit_def isspace_def Let_def split: if_splits)

lemma xdigit_zero: "xdigit CHR ''0'' = Some 0"
  by (simp add: xdigit_def)

lemma get_digits_hex_digits:
  "get_digits (hex_digits n lc @ ys) acc k =
     get_digits ys (acc * 16 ^ length (hex_digits n lc) + n) (k + length (hex_digits n lc))"
proof (induction n lc arbitrary: ys acc k rule: hex_digits.induct)
  case (1 n lc)
  show ?case
  proof (cases "n < 16")
    case True
    then show ?thesis
      by (subst (1 2 3) hex_digits.simps) (simp add: xdigit_hex_digit_char)
  next
    case False
    let ?a = "hex_digits (n div 16) lc"
    let ?c = "hex_digit_char (n mod 16) lc"
    have d: "hex_digits n lc = ?a @ [?c]"
      using False by (subst hex_digits.simps) simp
    have "get_digits (hex_digits n lc @ ys) acc k = get_digits (?a @ ?c # ys) acc k"
      by (simp add: d)
    also have "\<dots> = get_digits (?c # ys) (acc * 16 ^ length ?a + n div 16) (k + length ?a)"
      by (rule "1.IH" [OF False])
    also have "\<dots> = get_digits ys ((acc * 16 ^ length ?a + n div 16) * 16 + n mod 16) (k + length ?a + 1)"
      by (simp add: xdigit_hex_digit_char)
    also have "(acc * 16 ^ length ?a + n div 16) * 16 + n mod 16 = acc * 16 ^ length (hex_digits n lc) + n"
      by (simp add: d algebra_simps)
    also have "k + length ?a + 1 = k + length (hex_digits n lc)"
      by (simp add: d)
    finally show ?thesis .
  qed
qed

lemma get_digits_zeros:
  "get_digits (replicate m CHR ''0'' @ ys) 0 k = get_digits ys 0 (k + m)"
  by (induction m arbitrary: k) (simp_all add: xdigit_zero)

lemma get_digits_count:
  "\<forall>c\<in>set s. xdigit c \<noteq> None \<Longrightarrow> snd (get_digits s acc k) = k + length s"
  by (induction s arbitrary: acc k) auto

lemma hex_digits_xdigit: "c \<in> set (hex_digits n lc) \<Longrightarrow> xdigit c \<noteq> None"
proof (induction n lc rule: hex_digits.induct)
  case (1 n lc)
  show ?case
  proof (cases "n < 16")
    case True
    with "1.prems" show ?thesis
      by (subst (asm) hex_digits.simps) (simp add: xdigit_hex_digit_char)
  next
    case False
    with "1.prems" have "c \<in> set (hex_digits (n div 16) lc) \<or> c = hex_digit_char (n mod 16) lc"
      by (subst (asm) hex_digits.simps) auto
    with "1.IH" [OF False] show ?thesis
      by (auto simp add: xdigit_hex_digit_char)
  qed
qed

lemma hex_digits_not_empty: "hex_digits n lc \<noteq> []"
  by (subst hex_digits.simps) simp

lemma length_hex_digits: "n < 16 ^ m \<Longrightarrow> 0 < m \<Longrightarrow> length (hex_digits n lc) \<le> m"
proof (induction n lc arbitrary: m rule: hex_digits.induct)
  case (1 n lc)
  show ?case
  proof (cases "n < 16")
    case True
    with "1.prems" show ?thesis by (subst hex_digits.simps) simp
  next
    case False
    from "1.prems" obtain m' where m: "m = Suc m'" by (cases m) auto
    with False "1.prems" have "0 < m'" by (cases m') auto
    moreover from "1.prems" m have "n div 16 < 16 ^ m'"
      by (simp add: less_mult_imp_div_less mult.commute)
    ultimately have "length (hex_digits (n div 16) lc) \<le> m'"
      by (intro "1.IH" [OF False])
    with False m show ?thesis by (subst hex_digits.simps) simp
  qed
qed

lemma get_hex_digits:
  assumes "s \<noteq> []" and "\<forall>c\<in>set s. xdigit c \<noteq> None"
  shows "get_hex s h0 =
    (if fst (get_digits s 0 0) > 0xFFFFFFFF then 0xFFFFFFFF else of_nat (fst (get_digits s 0 0)))"
proof -
  from assms obtain c r where s: "s = c # r" by (cases s) auto
  with assms have c: "xdigit c \<noteq> None" by simp
  note sp = xdigit_not_special [OF c]
  have s1: "dropWhile isspace s = s" using s sp by simp
  have s3: "(case s of c0 # cx # r \<Rightarrow>
        if c0 = CHR ''0'' \<and> (cx = CHR ''x'' \<or> cx = CHR ''X'') then r else s | _ \<Rightarrow> s) = s"
  proof (cases r)
    case Nil
    with s show ?thesis by simp
  next
    case (Cons cx r')
    with s assms have "xdigit cx \<noteq> None" by simp
    from xdigit_not_special [OF this] s Cons show ?thesis by simp
  qed
  have hd1: "hd s \<noteq> CHR ''-''" "hd s \<noteq> CHR ''+''"
    using s sp by simp_all
  have "snd (get_digits s 0 0) = length s"
    using get_digits_count [OF assms(2), of 0 0] by simp
  then have gd: "get_digits s 0 0 = (fst (get_digits s 0 0), length s)"
    by (metis prod.collapse)
  have "get_hex s h0 =
      (let (v, k) = get_digits s 0 0
       in if k = 0 then 0 else if v > 0xFFFFFFFF then 0xFFFFFFFF else of_nat v)"
    unfolding get_hex_def Let_def s1 using assms(1) hd1 by (simp add: s3 split: prod.splits)
  also have "\<dots> = (if fst (get_digits s 0 0) > 0xFFFFFFFF then 0xFFFFFFFF
      else of_nat (fst (get_digits s 0 0)))"
    using assms(1) by (subst gd) simp
  finally show ?thesis .
qed


lemma tostring_digits:
  "tostring h lc =
     replicate ((if is_extended h then 8 else 0) - length (hex_digits (unat (fullid h AND NOT EXTENDED_MASK)) lc)) CHR ''0''
     @ hex_digits (unat (fullid h AND NOT EXTENDED_MASK)) lc"
  by (simp add: tostring_def put_hex_def Let_def)

lemma tohex_zeros_digits:
  assumes "n < 2 ^ 32"
  shows "tohex (replicate m CHR ''0'' @ hex_digits n lc) = of_nat n"
proof -
  let ?s = "replicate m CHR ''0'' @ hex_digits n lc"
  have ne: "?s \<noteq> []" by (simp add: hex_digits_not_empty)
  have xd: "\<forall>c\<in>set ?s. xdigit c \<noteq> None"
    using hex_digits_xdigit [of _ n lc] by (auto simp add: xdigit_zero)
  have "get_digits ?s 0 0 = get_digits (hex_digits n lc @ []) 0 (0 + m)"
    by (simp only: get_digits_zeros append_Nil2)
  also have "\<dots> = (n, m + length (hex_digits n lc))"
    by (simp only: get_digits_hex_digits) simp
  finally have "fst (get_digits ?s 0 0) = n" by simp
  with assms show ?thesis
    by (simp add: tohex_def get_hex_digits [OF ne xd])
qed

lemma tohex_tostring: "tohex (tostring h lc) = fullid h AND NOT EXTENDED_MASK"
proof -
  have "unat (fullid h AND NOT EXTENDED_MASK) < 2 ^ 32"
    using unsigned_less [of "fullid h AND NOT EXTENDED_MASK", where 'a = nat] by simp
  then show ?thesis
    by (simp only: tostring_digits tohex_zeros_digits) simp
qed

lemma length_tostring_extended:
  assumes "is_extended h"
  shows "length (tostring h lc) = 8"
proof -
  have "unat (fullid h AND NOT EXTENDED_MASK) < 16 ^ 8"
    using unsigned_less [of "fullid h AND NOT EXTENDED_MASK", where 'a = nat] by simp
  then have "length (hex_digits (unat (fullid h AND NOT EXTENDED_MASK)) lc) \<le> 8"
    by (rule length_hex_digits) simp
  with assms show ?thesis
    by (simp add: tostring_digits)
qed

lemma bit_stripped_fullid:
  "bit (fullid h AND NOT EXTENDED_MASK) n \<longleftrightarrow>
     n < 29 \<and> bit (id' h) n \<or> n = 29 \<and> is_error h \<or> n = 30 \<and> is_rtr h"
  by (auto simp add: fullid_def ERROR_MASK_def RTR_MASK_def EXTENDED_MASK_def bit_simps
      simp del: push_bit_of_1 dest: bit_imp_le_length)


lemma toheader_tostring:
  assumes "Header_isValid h"
  shows "toheader (tostring h lc) = h\<lparr>is_extended := is_extended h \<and> 2 ^ 11 \<le> unat (id' h)\<rparr>"
proof -
  let ?v = "fullid h AND NOT EXTENDED_MASK"
  have "\<not> bit ?v 31"
    by (simp add: bit_stripped_fullid)
  with bit_mask_test [of ?v 31] have "?v AND push_bit 31 1 = 0"
    by blast
  then have ext: "?v AND EXTENDED_MASK = 0"
    by (simp only: EXTENDED_MASK_def)
  have rtr: "?v AND RTR_MASK \<noteq> 0 \<longleftrightarrow> is_rtr h"
    using bit_mask_test [of ?v 30] by (simp add: RTR_MASK_def bit_stripped_fullid del: push_bit_of_1)
  have err: "?v AND ERROR_MASK \<noteq> 0 \<longleftrightarrow> is_error h"
    using bit_mask_test [of ?v 29] by (simp add: ERROR_MASK_def bit_stripped_fullid del: push_bit_of_1)
  have ident: "(ucast (?v AND ID_MASK) :: 29 word) = id' h"
    unfolding ucast_ID_MASK by (rule bit_word_eqI) (simp add: bit_ucast_iff bit_stripped_fullid)
  have "unat (?v AND ID_MASK) = unat (id' h)"
  proof -
    have "unat (id' h) = unat (ucast (?v AND ID_MASK) :: 29 word)"
      by (simp only: ident)
    also have "\<dots> = take_bit 29 (unat (?v AND ID_MASK))"
      by (simp only: unsigned_ucast_eq) simp
    also have "\<dots> = unat (?v AND ID_MASK)"
      by (simp only: unat_ID_MASK take_bit_eq_mod mod_mod_trivial)
    finally show ?thesis by simp
  qed
  then have ge: "push_bit 11 1 \<le> ?v AND ID_MASK \<longleftrightarrow> 2 ^ 11 \<le> unat (id' h)"
    by (simp add: word_le_nat_alt)
  have len: "length (tostring h lc) = 8 \<and> 2 ^ 11 \<le> unat (id' h) \<longleftrightarrow>
      is_extended h \<and> 2 ^ 11 \<le> unat (id' h)"
  proof (cases "is_extended h")
    case True
    then show ?thesis by (simp add: length_tostring_extended)
  next
    case False
    with assms have "uint (id' h) < 2048" by (simp add: Header_isValid_def)
    then have "unat (id' h) < 2048" using unat_eq_nat_uint [of "id' h"] by linarith
    with False show ?thesis by simp
  qed
  have "toheader (tostring h lc) =
      Header_ctor (?v AND ID_MASK) (is_extended h \<and> 2 ^ 11 \<le> unat (id' h)) (is_rtr h) (is_error h)"
    using len by (simp add: toheader_def tohex_tostring Let_def ext rtr err ge del: push_bit_of_1)
  then have "toheader (tostring h lc) =
      \<lparr>id' = id' h, is_error = is_error h, is_rtr = is_rtr h,
       is_extended = is_extended h \<and> 2 ^ 11 \<le> unat (id' h)\<rparr>"
    by (simp add: Header_ctor_def ident)
  then show ?thesis
    by (cases h) simp
qed

text \<open>
  C1, as the code has it. For every valid header \<open>h\<close> and both cases of letters,
  parsing the text of \<open>h\<close> gives \<open>h\<close> back, unless \<open>h\<close> is extended with an id below
  \<open>2 ^ 11\<close>: the text of such a header has 8 digits and no mark of the extended format,
  and parsing it gives \<open>h\<close> with \<^verbatim>\<open>is_extended\<close> cleared.
\<close>

theorem toheader_tostring_roundtrip:
  assumes "Header_isValid h"
  shows "(\<not> (is_extended h \<and> unat (id' h) < 2 ^ 11) \<longrightarrow> toheader (tostring h lc) = h)
    \<and> (is_extended h \<and> unat (id' h) < 2 ^ 11 \<longrightarrow>
         toheader (tostring h lc) = h\<lparr>is_extended := False\<rparr>)"
proof (intro conjI impI)
  assume "\<not> (is_extended h \<and> unat (id' h) < 2 ^ 11)"
  then have "(is_extended h \<and> 2 ^ 11 \<le> unat (id' h)) = is_extended h" by auto
  then show "toheader (tostring h lc) = h"
    by (simp add: toheader_tostring [OF assms])
next
  assume "is_extended h \<and> unat (id' h) < 2 ^ 11"
  then have "(is_extended h \<and> 2 ^ 11 \<le> unat (id' h)) = False" by auto
  then show "toheader (tostring h lc) = h\<lparr>is_extended := False\<rparr>"
    by (simp add: toheader_tostring [OF assms])
qed

theorem toheader_tostring_roundtrip_witness:
  "Header_isValid (Header_ctor 0x123 False True True)
   \<and> toheader (tostring (Header_ctor 0x123 False True True) False) = Header_ctor 0x123 False True True
   \<and> Header_isValid (Header_ctor 0x12345 True False False)
   \<and> toheader (tostring (Header_ctor 0x12345 True False False) True) = Header_ctor 0x12345 True False False
   \<and> Header_isValid (Header_ctor 0x7FF True False False)
   \<and> toheader (tostring (Header_ctor 0x7FF True False False) True) = Header_ctor 0x7FF False False False"
proof -
  have v1: "Header_isValid (Header_ctor 0x123 False True True)"
    by (simp add: Header_isValid_def Header_ctor_def)
  have v2: "Header_isValid (Header_ctor 0x12345 True False False)"
    by (simp add: Header_isValid_def Header_ctor_def)
  have v3: "Header_isValid (Header_ctor 0x7FF True False False)"
    by (simp add: Header_isValid_def Header_ctor_def)
  have n1: "\<not> (is_extended (Header_ctor 0x123 False True True)
      \<and> unat (id' (Header_ctor 0x123 False True True)) < 2 ^ 11)"
    by (simp add: Header_ctor_def)
  have n2: "\<not> (is_extended (Header_ctor 0x12345 True False False)
      \<and> unat (id' (Header_ctor 0x12345 True False False)) < 2 ^ 11)"
    by (simp add: Header_ctor_def)
  have n3: "is_extended (Header_ctor 0x7FF True False False)
      \<and> unat (id' (Header_ctor 0x7FF True False False)) < 2 ^ 11"
    by (simp add: Header_ctor_def)
  have c3: "(Header_ctor 0x7FF True False False)\<lparr>is_extended := False\<rparr> =
      Header_ctor 0x7FF False False False"
    by (simp add: Header_ctor_def)
  from toheader_tostring_roundtrip [OF v1, of False] n1
  have "toheader (tostring (Header_ctor 0x123 False True True) False) = Header_ctor 0x123 False True True"
    by blast
  moreover from toheader_tostring_roundtrip [OF v2, of True] n2
  have "toheader (tostring (Header_ctor 0x12345 True False False) True) = Header_ctor 0x12345 True False False"
    by blast
  moreover from toheader_tostring_roundtrip [OF v3, of True] n3
  have "toheader (tostring (Header_ctor 0x7FF True False False) True) =
      (Header_ctor 0x7FF True False False)\<lparr>is_extended := False\<rparr>"
    by blast
  ultimately show ?thesis using v1 v2 v3 c3 by simp
qed

lemma tostring_7ff: "tostring (Header_ctor 0x7FF True False False) True = ''000007ff''"
proof -
  have d: "hex_digits 2047 True = ''7ff''"
    by (simp add: hex_digits.simps hex_digit_char_def)
  have r: "replicate 5 CHR ''0'' = ''00000''"
    by (simp add: numeral_eq_Suc)
  show ?thesis
    by (simp add: tostring_def fullid_def Header_ctor_def put_hex_def EXTENDED_MASK_def d r)
qed

text \<open>
  C1 as stated fails: the extended header with id \<^verbatim>\<open>0x7FF\<close> is valid, its text is
  \<^verbatim>\<open>"000007ff"\<close>, and that text parses to the standard header with id \<^verbatim>\<open>0x7FF\<close>.
\<close>

theorem toheader_tostring_counterexample:
  "Header_isValid (Header_ctor 0x7FF True False False)
   \<and> tostring (Header_ctor 0x7FF True False False) True = ''000007ff''
   \<and> toheader ''000007ff'' = Header_ctor 0x7FF False False False
   \<and> toheader (tostring (Header_ctor 0x7FF True False False) True) \<noteq> Header_ctor 0x7FF True False False"
  by (simp add: tostring_7ff toheader_values) (simp add: Header_isValid_def Header_ctor_def)

section \<open>Headers from texts of hex digits\<close>










end
